theory Spec2Isabelle
  imports Main "HOL-Library.AList"
begin

section \<open>The supervisor of gosuv (src/web.go)\<close>

text \<open>
  This theory embeds the registry part of \<^verbatim>\<open>src/web.go\<close>: the type \<^verbatim>\<open>Supervisor\<close> and its
  methods \<^verbatim>\<open>programs\<close>, \<^verbatim>\<open>newProcess\<close>, \<^verbatim>\<open>broadcastEvent\<close>, \<^verbatim>\<open>stopAndWait\<close>,
  \<^verbatim>\<open>addOrUpdateProgram\<close>, \<^verbatim>\<open>readConfigFromDB\<close>, \<^verbatim>\<open>loadDB\<close> and \<^verbatim>\<open>saveDB\<close>.

  The types \<^verbatim>\<open>Program\<close> and \<^verbatim>\<open>Process\<close> and their methods are declared in another file of
  the repository; what \<^verbatim>\<open>web.go\<close> needs of them is modelled from the specification and
  marked so. The libraries \<^verbatim>\<open>yaml\<close> and \<^verbatim>\<open>ioutil\<close> are parameters of the functions that
  call them.
\<close>

subsection \<open>Programs\<close>

text \<open>
  The fields of \<^verbatim>\<open>Program\<close> are those that \<^verbatim>\<open>hAddProgram\<close> (web.go:301-308) sets.
  \<^verbatim>\<open>reflect.DeepEqual\<close> on two such values is equality of all fields, which is equality
  of the record.
\<close>

record Program =
  Name :: string
  Command :: string
  Dir :: string
  StartAuto :: bool
  StartRetries :: int

text \<open>The zero value of the struct, which a Go map returns for a missing key.\<close>

definition zeroProgram :: Program where
  "zeroProgram = \<lparr>Name = [], Command = [], Dir = [], StartAuto = False, StartRetries = 0\<rparr>"

text \<open>The values of Go's \<^verbatim>\<open>error\<close> that occur: \<^verbatim>\<open>None\<close> of \<open>error option\<close> is \<^verbatim>\<open>nil\<close>.\<close>

datatype error =
    NoSuchProgram                 \<comment> \<open>\<^verbatim>\<open>errors.New("No such program")\<close>\<close>
  | DuplicatedProgramName string  \<comment> \<open>\<^verbatim>\<open>fmt.Errorf("Duplicated program name: %s", pg.Name)\<close>\<close>
  | ValidationError string        \<comment> \<open>from \<^verbatim>\<open>Program.Check\<close>, with the field at fault\<close>
  | YamlError string              \<comment> \<open>from \<^verbatim>\<open>yaml.Unmarshal\<close> and \<^verbatim>\<open>yaml.Marshal\<close>\<close>
  | IOError string                \<comment> \<open>from \<^verbatim>\<open>ioutil.ReadFile\<close> and \<^verbatim>\<open>ioutil.WriteFile\<close>\<close>

text \<open>
  Modelled from the spec: \<^verbatim>\<open>Program.Check\<close>, which is not in src/web.go. The spec (section 3)
  gives its contract: name and command non-empty, retries not negative. The default of the
  working directory is set by the caller before the check (web.go:309-311), so the check
  itself only validates. The functions below take the check as a parameter \<open>chk\<close>; this
  definition is the instance used on concrete inputs.
\<close>

definition Check :: "Program \<Rightarrow> error option" where
  "Check pg =
     (if Name pg = [] then Some (ValidationError ''name'')
      else if Command pg = [] then Some (ValidationError ''command'')
      else if StartRetries pg < 0 then Some (ValidationError ''start_retries'')
      else None)"

subsection \<open>Process controllers\<close>

text \<open>
  Modelled from the spec: the states and events of the lifecycle state machine, which is
  not in src/web.go (spec, section 4.2). \<^verbatim>\<open>StartEvent\<close> and \<^verbatim>\<open>StopEvent\<close> are the two events
  that web.go sends; the other five are the conditions of the transition table that the
  controller's own goroutines and the operating system raise.
\<close>

datatype FSMState = Stopped | Starting | Running | Stopping | Backoff | Fatal

datatype FSMEvent =
    StartEvent | StopEvent
  | SpawnSucceeded | SpawnFailed | ProcessExited | ProcessTerminated | RetryDelayElapsed

text \<open>\<^verbatim>\<open>string(state)\<close>, as the events of scenario 2 of the spec (section 8) print it.\<close>

fun stateString :: "FSMState \<Rightarrow> string" where
  "stateString Stopped = ''Stopped''"
| "stateString Starting = ''Starting''"
| "stateString Running = ''Running''"
| "stateString Stopping = ''Stopping''"
| "stateString Backoff = ''Backoff''"
| "stateString Fatal = ''Fatal''"

text \<open>
  A controller: the program it runs (web.go reads \<^verbatim>\<open>p.Name\<close>), the state of the machine and
  the crash-retry counter. The handle of the OS process and the output broadcaster are
  left out: no function of the registry reads them.
\<close>

record Process =
  Prog :: Program
  State :: FSMState
  retry :: int

text \<open>Modelled from the spec: \<^verbatim>\<open>NewProcess\<close> creates the controller in the state Stopped.\<close>

definition NewProcess :: "Program \<Rightarrow> Process" where
  "NewProcess pg = \<lparr>Prog = pg, State = Stopped, retry = 0\<rparr>"

text \<open>Modelled from the spec: \<^verbatim>\<open>IsRunning\<close> is true exactly in Starting and Running.\<close>

definition IsRunning :: "Process \<Rightarrow> bool" where
  "IsRunning p = (State p = Starting \<or> State p = Running)"

text \<open>
  Modelled from the spec: a failed spawn or an unexpected exit increments the retry
  counter; the controller is Fatal if the counter exceeds \<^verbatim>\<open>startRetries\<close>, else Backoff.
\<close>

definition crashed :: "Process \<Rightarrow> Process" where
  "crashed p =
     (let r = retry p + 1
      in p\<lparr>State := (if r > StartRetries (Prog p) then Fatal else Backoff), retry := r\<rparr>)"

text \<open>
  Modelled from the spec: the transition table of section 4.2. The result is the
  controller after the transition, or \<open>None\<close> when the table has no entry for the event
  in the current state (the event is not accepted).
\<close>

fun transition :: "FSMState \<Rightarrow> FSMEvent \<Rightarrow> Process \<Rightarrow> Process option" where
  "transition Stopped StartEvent p = Some (p\<lparr>State := Starting, retry := 0\<rparr>)"
| "transition Starting SpawnSucceeded p = Some (p\<lparr>State := Running\<rparr>)"
| "transition Starting SpawnFailed p = Some (crashed p)"
| "transition Running StopEvent p = Some (p\<lparr>State := Stopping\<rparr>)"
| "transition Running ProcessExited p = Some (crashed p)"
| "transition Stopping ProcessTerminated p = Some (p\<lparr>State := Stopped\<rparr>)"
| "transition Backoff RetryDelayElapsed p = Some (p\<lparr>State := Starting\<rparr>)"
| "transition Fatal StartEvent p = Some (p\<lparr>State := Starting, retry := 0\<rparr>)"
| "transition _ _ p = None"

subsection \<open>The supervisor\<close>

text \<open>
  A Go map is an association list with the operations of the library theory AList:
  \<^const>\<open>map_of\<close> looks a key up, \<^const>\<open>AList.update\<close> assigns, \<^const>\<open>AList.delete\<close>
  deletes. A \<^verbatim>\<open>range\<close> over the map visits the entries in the order of the list; Go leaves
  the order open, and so do the theorems, which hold for every list.

  \<^verbatim>\<open>procMap\<close> holds pointers in Go. Every controller is referenced from one entry of
  \<^verbatim>\<open>procMap\<close> only, so the entry holds the controller itself, and \<^verbatim>\<open>p.Operate(e)\<close> on the
  pointer found under a key rewrites that entry.
\<close>

text \<open>
  The closure of the \<^verbatim>\<open>go func()\<close> of \<^verbatim>\<open>addOrUpdateProgram\<close> (web.go:127-136): the variables
  it captures.
\<close>

record goroutine =
  origProc :: Process
  newPg :: Program
  isRunning :: bool

text \<open>
  The struct \<^verbatim>\<open>Supervisor\<close> (web.go:34-42). \<^verbatim>\<open>mu\<close> is true while the mutex is locked.
  \<^verbatim>\<open>eventB\<close> is the sequence of events written to the broadcaster, oldest first.

  Two more fields hold what a sequential model has to make explicit. \<open>goroutines\<close> are
  the closures started by \<^verbatim>\<open>go\<close> whose body has not run yet. \<open>world\<close> is what the rest
  of the system does to the controllers while a call waits in the \<^verbatim>\<open>select\<close> of
  \<^verbatim>\<open>stopAndWait\<close>: one entry for each time the \<^verbatim>\<open>select\<close> wakes up (by an event on the
  channel or by the timer), listing the events that reached controllers, by key of
  \<^verbatim>\<open>procMap\<close>, since the previous wake-up.
\<close>

record Supervisor =
  ConfigDir :: string
  names :: "string list"
  pgMap :: "(string \<times> Program) list"
  procMap :: "(string \<times> Process) list"
  mu :: bool
  eventB :: "string list"
  goroutines :: "goroutine list"
  world :: "(string \<times> FSMEvent) list list"

text \<open>
  The result of a call: it returns a value, it panics (a nil pointer is dereferenced), or
  it blocks: the mutex is locked, or the wait of \<^verbatim>\<open>stopAndWait\<close> has not ended when
  \<open>world\<close> is used up.
\<close>

datatype 'a outcome = Return 'a | Panic | Blocked

text \<open>\<^verbatim>\<open>programs\<close> (web.go:44-50).\<close>

definition programs :: "Supervisor \<Rightarrow> Program list" where
  "programs s =
     map (\<lambda>name. case map_of (pgMap s) name of Some pg \<Rightarrow> pg | None \<Rightarrow> zeroProgram) (names s)"

text \<open>\<^verbatim>\<open>broadcastEvent\<close> (web.go:74-76).\<close>

definition broadcastEvent :: "string \<Rightarrow> Supervisor \<Rightarrow> Supervisor" where
  "broadcastEvent event s = s\<lparr>eventB := eventB s @ [event]\<rparr>"

text \<open>
  \<^verbatim>\<open>newProcess\<close> (web.go:64-72) wraps the hook \<^verbatim>\<open>StateChange\<close> of the new controller so that
  every transition is broadcast. \<open>stateChange\<close> is the text that the hook broadcasts.
\<close>

definition stateChange :: "Process \<Rightarrow> FSMState \<Rightarrow> FSMState \<Rightarrow> string" where
  "stateChange p oldState newState =
     Name (Prog p) @ '' state: '' @ stateString oldState @ '' -> '' @ stateString newState"

definition newProcess :: "Program \<Rightarrow> Process" where
  "newProcess pg = NewProcess pg"

text \<open>
  \<^verbatim>\<open>p.Operate(event)\<close> for the controller \<open>p\<close> stored under \<open>key\<close>: the transition, then the
  hook. An event that is not accepted, or a key without controller, changes nothing.
\<close>

definition Operate :: "string \<Rightarrow> FSMEvent \<Rightarrow> Supervisor \<Rightarrow> Supervisor" where
  "Operate key event s =
     (case map_of (procMap s) key of
        None \<Rightarrow> s
      | Some p \<Rightarrow>
          (case transition (State p) event p of
             None \<Rightarrow> s
           | Some p' \<Rightarrow>
               broadcastEvent (stateChange p (State p) (State p'))
                 (s\<lparr>procMap := AList.update key p' (procMap s)\<rparr>)))"

text \<open>The events of one entry of \<open>world\<close>, in order.\<close>

definition occur :: "(string \<times> FSMEvent) list \<Rightarrow> Supervisor \<Rightarrow> Supervisor" where
  "occur evs s = fold (\<lambda>(key, event). Operate key event) evs s"

text \<open>
  The \<^verbatim>\<open>for\<close>/\<^verbatim>\<open>select\<close> loop of \<^verbatim>\<open>stopAndWait\<close> (web.go:99-110). Both cases of the \<^verbatim>\<open>select\<close>
  do the same: return if the controller is not running. \<open>p\<close> of the source is the
  controller under \<open>name\<close>; the entry exists, since nothing in \<open>world\<close> removes one.
\<close>

fun waitStopped :: "string \<Rightarrow> (string \<times> FSMEvent) list list \<Rightarrow> Supervisor \<Rightarrow> Supervisor outcome" where
  "waitStopped name [] s = Blocked"
| "waitStopped name (evs # w) s =
     (let s' = (occur evs s)\<lparr>world := w\<rparr>
      in case map_of (procMap s') name of
           None \<Rightarrow> Panic
         | Some p \<Rightarrow> if \<not> IsRunning p then Return s' else waitStopped name w s')"

text \<open>
  \<^verbatim>\<open>stopAndWait\<close> (web.go:88-111). The listener that \<^verbatim>\<open>addStatusChangeListener\<close> registers
  only wakes the loop up; it is part of \<open>world\<close>.
\<close>

definition stopAndWait :: "string \<Rightarrow> Supervisor \<Rightarrow> (error option \<times> Supervisor) outcome" where
  "stopAndWait name s =
     (case map_of (procMap s) name of
        None \<Rightarrow> Return (Some NoSuchProgram, s)
      | Some p \<Rightarrow>
          if \<not> IsRunning p then Return (None, s)
          else (case waitStopped name (world s) (Operate name StopEvent s) of
                  Return s' \<Rightarrow> Return (None, s')
                | Panic \<Rightarrow> Panic
                | Blocked \<Rightarrow> Blocked))"

text \<open>
  \<^verbatim>\<open>addOrUpdateProgram\<close> (web.go:113-145). \<^verbatim>\<open>origProc\<close> is nil when \<^verbatim>\<open>procMap\<close> has no
  entry for the name, and \<^verbatim>\<open>origProc.IsRunning()\<close> then panics. The \<^verbatim>\<open>go\<close> statement adds the
  closure to \<open>goroutines\<close>; \<open>updateBody\<close> below is its body.
\<close>

definition addOrUpdateProgram ::
  "(Program \<Rightarrow> error option) \<Rightarrow> Program \<Rightarrow> Supervisor \<Rightarrow> (error option \<times> Supervisor) outcome" where
  "addOrUpdateProgram chk pg s =
     (case chk pg of
        Some err \<Rightarrow> Return (Some err, s)
      | None \<Rightarrow>
          (case map_of (pgMap s) (Name pg) of
             Some origPg \<Rightarrow>
               if origPg = pg then Return (None, s)
               else
                 (let s1 = broadcastEvent (Name pg @ '' update'') s
                  in case map_of (procMap s1) (Name pg) of
                       None \<Rightarrow> Panic
                     | Some p \<Rightarrow>
                         Return (None, s1\<lparr>goroutines := goroutines s1 @
                           [\<lparr>origProc = p, newPg = pg, isRunning = IsRunning p\<rparr>]\<rparr>))
           | None \<Rightarrow>
               Return (None,
                 broadcastEvent (Name pg @ '' added'')
                   (s\<lparr>names := names s @ [Name pg],
                      pgMap := AList.update (Name pg) pg (pgMap s),
                      procMap := AList.update (Name pg) (newProcess pg) (procMap s)\<rparr>))))"

text \<open>
  The statements of the goroutine after \<^verbatim>\<open>stopAndWait\<close> (web.go:130-135): the new
  controller replaces the old one, the new program replaces the stored one, and the new
  controller is started if the old one was running.
\<close>

definition swap :: "goroutine \<Rightarrow> Supervisor \<Rightarrow> Supervisor" where
  "swap g s =
     (let s1 = s\<lparr>procMap := AList.update (Name (newPg g)) (newProcess (newPg g)) (procMap s)\<rparr>;
          s2 = s1\<lparr>pgMap := AList.update (Name (newPg g)) (newPg g) (pgMap s1)\<rparr>
      in if isRunning g then Operate (Name (newPg g)) StartEvent s2 else s2)"

text \<open>
  The body of the goroutine (web.go:127-136). The result of \<^verbatim>\<open>stopAndWait\<close> is dropped. No
  statement of the body locks or unlocks \<^verbatim>\<open>mu\<close>.
\<close>

definition updateBody :: "goroutine \<Rightarrow> Supervisor \<Rightarrow> Supervisor outcome" where
  "updateBody g s =
     (case stopAndWait (Name (Prog (origProc g))) s of
        Return (err, s1) \<Rightarrow> Return (swap g s1)
      | Panic \<Rightarrow> Panic
      | Blocked \<Rightarrow> Blocked)"

text \<open>
  The loop of \<^verbatim>\<open>readConfigFromDB\<close> that looks for a repeated name (web.go:159-165);
  \<open>visited\<close> lists the keys that the map \<^verbatim>\<open>visited\<close> holds.
\<close>

fun findDuplicate :: "string list \<Rightarrow> Program list \<Rightarrow> error option" where
  "findDuplicate visited [] = None"
| "findDuplicate visited (pg # pgs) =
     (if Name pg \<in> set visited then Some (DuplicatedProgramName (Name pg))
      else findDuplicate (Name pg # visited) pgs)"

text \<open>
  \<^verbatim>\<open>readConfigFromDB\<close> (web.go:150-167). \<open>file\<close> is the result of \<^verbatim>\<open>ioutil.ReadFile\<close> on the
  path of the configuration: the error or the bytes. \<open>unmarshal\<close> is \<^verbatim>\<open>yaml.Unmarshal\<close> into
  an empty slice of programs. A failed read is replaced by the empty byte string.
\<close>

definition readConfigFromDB ::
  "(string \<Rightarrow> error + Program list) \<Rightarrow> error + string \<Rightarrow> error + Program list" where
  "readConfigFromDB unmarshal file =
     (let data = (case file of Inl err \<Rightarrow> [] | Inr bytes \<Rightarrow> bytes)
      in case unmarshal data of
           Inl err \<Rightarrow> Inl err
         | Inr pgs \<Rightarrow>
             (case findDuplicate [] pgs of
                Some err \<Rightarrow> Inl err
              | None \<Rightarrow> Inr pgs))"

text \<open>
  The first loop of \<^verbatim>\<open>loadDB\<close> (web.go:179-183). The error that \<^verbatim>\<open>addOrUpdateProgram\<close>
  returns is dropped; \<^verbatim>\<open>names\<close> and \<^verbatim>\<open>visited\<close> of the source receive the name of every
  program of the list, so both are \<open>map Name pgs\<close> after the loop.
\<close>

fun addOrUpdateAll ::
  "(Program \<Rightarrow> error option) \<Rightarrow> Program list \<Rightarrow> Supervisor \<Rightarrow> Supervisor outcome" where
  "addOrUpdateAll chk [] s = Return s"
| "addOrUpdateAll chk (pg # pgs) s =
     (case addOrUpdateProgram chk pg s of
        Return (err, s') \<Rightarrow> addOrUpdateAll chk pgs s'
      | Panic \<Rightarrow> Panic
      | Blocked \<Rightarrow> Blocked)"

text \<open>
  The second loop of \<^verbatim>\<open>loadDB\<close> (web.go:186-196), a \<^verbatim>\<open>range\<close> over \<^verbatim>\<open>pgMap\<close>. \<open>entries\<close>
  are the entries that the map had when the loop began and that are still to come. The
  body deletes from the map under iteration; an entry that was deleted before the loop
  reached it is not visited, as Go defines it.
\<close>

fun deleteNotVisited ::
  "string list \<Rightarrow> (string \<times> Program) list \<Rightarrow> Supervisor \<Rightarrow> Supervisor outcome" where
  "deleteNotVisited visited [] s = Return s"
| "deleteNotVisited visited ((key, pg) # entries) s =
     (if map_of (pgMap s) key = None then deleteNotVisited visited entries s
      else if Name pg \<in> set visited then deleteNotVisited visited entries s
      else
        (case stopAndWait (Name pg) s of
           Return (err, s1) \<Rightarrow>
             deleteNotVisited visited entries
               (broadcastEvent (Name pg @ '' deleted'')
                  (s1\<lparr>procMap := AList.delete (Name pg) (procMap s1),
                      pgMap := AList.delete (Name pg) (pgMap s1)\<rparr>))
         | Panic \<Rightarrow> Panic
         | Blocked \<Rightarrow> Blocked))"

text \<open>
  \<^verbatim>\<open>loadDB\<close> (web.go:169-198). \<^verbatim>\<open>Lock\<close> blocks while the mutex is locked; the deferred
  \<^verbatim>\<open>Unlock\<close> runs at every return.
\<close>

definition loadDB ::
  "(Program \<Rightarrow> error option) \<Rightarrow> (string \<Rightarrow> error + Program list) \<Rightarrow> error + string \<Rightarrow>
     Supervisor \<Rightarrow> (error option \<times> Supervisor) outcome" where
  "loadDB chk unmarshal file s =
     (if mu s then Blocked
      else
        (let s0 = s\<lparr>mu := True\<rparr>
         in case readConfigFromDB unmarshal file of
              Inl err \<Rightarrow> Return (Some err, s0\<lparr>mu := False\<rparr>)
            | Inr pgs \<Rightarrow>
                (case addOrUpdateAll chk pgs s0 of
                   Return s1 \<Rightarrow>
                     (let s2 = s1\<lparr>names := map Name pgs\<rparr>
                      in case deleteNotVisited (map Name pgs) (pgMap s2) s2 of
                           Return s3 \<Rightarrow> Return (None, s3\<lparr>mu := False\<rparr>)
                         | Panic \<Rightarrow> Panic
                         | Blocked \<Rightarrow> Blocked)
                 | Panic \<Rightarrow> Panic
                 | Blocked \<Rightarrow> Blocked)))"

text \<open>
  \<^verbatim>\<open>saveDB\<close> (web.go:200-208). \<open>marshal\<close> is \<^verbatim>\<open>yaml.Marshal\<close>; \<open>writeFile\<close> is
  \<^verbatim>\<open>ioutil.WriteFile\<close> on the path of the configuration, from the bytes to its result.
\<close>

definition saveDB ::
  "(Program list \<Rightarrow> error + string) \<Rightarrow> (string \<Rightarrow> error option) \<Rightarrow> Supervisor \<Rightarrow>
     (error option \<times> Supervisor) outcome" where
  "saveDB marshal writeFile s =
     (if mu s then Blocked
      else
        (let s0 = s\<lparr>mu := True\<rparr>
         in case marshal (programs s0) of
              Inl err \<Rightarrow> Return (Some err, s0\<lparr>mu := False\<rparr>)
            | Inr data \<Rightarrow> Return (writeFile data, s0\<lparr>mu := False\<rparr>)))"

subsection \<open>Concrete registries\<close>

text \<open>
  The supervisor that \<^verbatim>\<open>newSupervisorHandler\<close> creates (web.go:462-468): empty maps, no
  names, the mutex unlocked.
\<close>

definition newSupervisor :: "string \<Rightarrow> Supervisor" where
  "newSupervisor dir =
     \<lparr>ConfigDir = dir, names = [], pgMap = [], procMap = [], mu = False, eventB = [],
      goroutines = [], world = []\<rparr>"

text \<open>Three programs: a valid one, the same with another command, and one without command.\<close>

definition pgA :: Program where
  "pgA = \<lparr>Name = ''a'', Command = ''sleep 60'', Dir = ''/'', StartAuto = True, StartRetries = 3\<rparr>"

definition pgA2 :: Program where
  "pgA2 = \<lparr>Name = ''a'', Command = ''sleep 90'', Dir = ''/'', StartAuto = True, StartRetries = 3\<rparr>"

definition pgB :: Program where
  "pgB = \<lparr>Name = ''b'', Command = [], Dir = ''/'', StartAuto = False, StartRetries = 0\<rparr>"

text \<open>
  A registry that holds \<open>pgA\<close> with its controller in the state \<open>st\<close>, and \<open>w\<close> for the
  future of the controllers.
\<close>

definition supA :: "FSMState \<Rightarrow> (string \<times> FSMEvent) list list \<Rightarrow> Supervisor" where
  "supA st w =
     \<lparr>ConfigDir = ''/root/.gosuv'', names = [''a''], pgMap = [(''a'', pgA)],
      procMap = [(''a'', (newProcess pgA)\<lparr>State := st\<rparr>)], mu = False, eventB = [],
      goroutines = [], world = w\<rparr>"

text \<open>
  A stand-in for \<^verbatim>\<open>yaml.Unmarshal\<close> on the files of the examples: a table from the bytes of
  a file to the programs it lists. On empty input the library reports no error and leaves
  the slice as it is, which is empty (web.go:155).
\<close>

definition unmarshalTable :: "(string \<times> Program list) list \<Rightarrow> string \<Rightarrow> error + Program list" where
  "unmarshalTable table data =
     (if data = [] then Inr []
      else case map_of table data of
             Some pgs \<Rightarrow> Inr pgs
           | None \<Rightarrow> Inl (YamlError ''cannot unmarshal''))"

text \<open>A fourth program: the name of \<open>pgA\<close>, without command.\<close>

definition pgA3 :: Program where
  "pgA3 = \<lparr>Name = ''a'', Command = [], Dir = ''/'', StartAuto = True, StartRetries = 3\<rparr>"

text \<open>
  A stand-in for \<^verbatim>\<open>yaml.Marshal\<close> on the examples: the names of the programs, each
  followed by a semicolon.
\<close>

definition marshalNames :: "Program list \<Rightarrow> error + string" where
  "marshalNames pgs = Inr (concat (map (\<lambda>pg. Name pg @ '';'') pgs))"

subsection \<open>The invariant of the registry\<close>

text \<open>
  The names, the keys of \<^verbatim>\<open>pgMap\<close> and the keys of \<^verbatim>\<open>procMap\<close> are the same set (spec,
  section 3).
\<close>

definition keysAgree :: "Supervisor \<Rightarrow> bool" where
  "keysAgree s \<longleftrightarrow>
     set (names s) = set (map fst (pgMap s)) \<and> set (map fst (pgMap s)) = set (map fst (procMap s))"

text \<open>
  Every program is stored under its own name, as the two assignments
  \<^verbatim>\<open>s.pgMap[pg.Name] = pg\<close> (web.go:132, 140) leave it.
\<close>

definition keyedByName :: "Supervisor \<Rightarrow> bool" where
  "keyedByName s \<longleftrightarrow> list_all (\<lambda>(key, pg). Name pg = key) (pgMap s)"

text \<open>
  What a call of \<^verbatim>\<open>Operate\<close> or of \<^verbatim>\<open>stopAndWait\<close> leaves as it was: the configuration
  directory, the names, the stored programs, the keys of \<^verbatim>\<open>procMap\<close>, the mutex and the
  goroutines. Only the controllers behind the keys, the events and \<open>world\<close> may differ.
\<close>

definition sameRegistry :: "Supervisor \<Rightarrow> Supervisor \<Rightarrow> bool" where
  "sameRegistry s s' \<longleftrightarrow>
     ConfigDir s' = ConfigDir s \<and> names s' = names s \<and> pgMap s' = pgMap s \<and>
     map fst (procMap s') = map fst (procMap s) \<and> mu s' = mu s \<and> goroutines s' = goroutines s"

section \<open>Properties\<close>

lemmas example_defs =
  supA_def newSupervisor_def pgA_def pgA2_def pgA3_def pgB_def unmarshalTable_def Check_def
  newProcess_def NewProcess_def IsRunning_def stateChange_def broadcastEvent_def Operate_def
  occur_def

subsection \<open>Frame lemmas\<close>

lemma unlock_id: "\<not> mu s \<Longrightarrow> s\<lparr>mu := False\<rparr> = s"
  by (cases s) simp

lemma sameRegistry_refl: "sameRegistry s s"
  by (simp add: sameRegistry_def)

lemma sameRegistry_trans: "sameRegistry s t \<Longrightarrow> sameRegistry t u \<Longrightarrow> sameRegistry s u"
  by (simp add: sameRegistry_def)

lemma update_present_keys: "map_of al k = Some v \<Longrightarrow> map fst (AList.update k v' al) = map fst al"
  by (simp add: update_keys) (metis domI dom_map_of_conv_image_fst)

lemma Operate_frame: "sameRegistry s (Operate key event s)"
  by (simp add: Operate_def broadcastEvent_def sameRegistry_def update_present_keys
      split: option.splits)

lemma occur_frame: "sameRegistry s (occur evs s)"
proof -
  have "sameRegistry s (fold (\<lambda>(key, event). Operate key event) evs s)"
  proof (induction evs arbitrary: s)
    case Nil
    show ?case by (simp add: sameRegistry_refl)
  next
    case (Cons ev evs)
    obtain key event where ev: "ev = (key, event)" by (cases ev)
    have "sameRegistry s (Operate key event s)" by (rule Operate_frame)
    from sameRegistry_trans [OF this Cons [of "Operate key event s"]] ev show ?case by simp
  qed
  then show ?thesis by (simp add: occur_def)
qed

lemma waitStopped_frame: "waitStopped name w s = Return s' \<Longrightarrow> sameRegistry s s'"
proof (induction w arbitrary: s)
  case Nil
  then show ?case by simp
next
  case (Cons evs w)
  let ?s1 = "(occur evs s)\<lparr>world := w\<rparr>"
  have m: "sameRegistry s ?s1"
    using occur_frame [of s evs] by (simp add: sameRegistry_def)
  from Cons.prems obtain p where p: "map_of (procMap ?s1) name = Some p"
    by (cases "map_of (procMap ?s1) name") (simp_all add: Let_def)
  show ?case
  proof (cases "IsRunning p")
    case True
    with Cons.prems p have "waitStopped name w ?s1 = Return s'" by (simp add: Let_def)
    from sameRegistry_trans [OF m Cons.IH [OF this]] show ?thesis .
  next
    case False
    with Cons.prems p have "s' = ?s1" by (simp add: Let_def)
    with m show ?thesis by simp
  qed
qed

lemma stopAndWait_frame:
  assumes "stopAndWait name s = Return (err, s')"
  shows "sameRegistry s s'"
proof (cases "map_of (procMap s) name")
  case None
  with assms show ?thesis by (simp add: stopAndWait_def sameRegistry_refl)
next
  case (Some p)
  show ?thesis
  proof (cases "IsRunning p")
    case False
    with Some assms show ?thesis by (simp add: stopAndWait_def sameRegistry_refl)
  next
    case True
    with Some assms have "waitStopped name (world s) (Operate name StopEvent s) = Return s'"
      by (simp add: stopAndWait_def split: outcome.splits)
    from sameRegistry_trans [OF Operate_frame waitStopped_frame [OF this]] show ?thesis .
  qed
qed

lemma stopAndWait_mu: "stopAndWait name s = Return (err, s') \<Longrightarrow> mu s' = mu s"
  by (drule stopAndWait_frame) (simp add: sameRegistry_def)

lemma swap_mu: "mu (swap g s) = mu s"
  using Operate_frame [of "s\<lparr>procMap := AList.update (Name (newPg g)) (newProcess (newPg g)) (procMap s),
      pgMap := AList.update (Name (newPg g)) (newPg g) (pgMap s)\<rparr>" "Name (newPg g)" StartEvent]
  by (simp add: swap_def Let_def sameRegistry_def)

lemma Operate_other:
  "key \<noteq> name \<Longrightarrow> map_of (procMap (Operate key event s)) name = map_of (procMap s) name"
  by (simp add: Operate_def broadcastEvent_def update_conv' split: option.splits)

lemma occur_other:
  "name \<notin> fst ` set evs \<Longrightarrow> map_of (procMap (occur evs s)) name = map_of (procMap s) name"
  unfolding occur_def
  by (induction evs arbitrary: s) (auto simp: Operate_other)

subsection \<open>stopAndWait\<close>

lemma sameRegistry_registered:
  assumes "sameRegistry s s'" and "map_of (procMap s) name \<noteq> None"
  shows "map_of (procMap s') name \<noteq> None"
proof -
  from assms(1) have "map fst (procMap s') = map fst (procMap s)"
    by (simp add: sameRegistry_def)
  then have "fst ` set (procMap s') = fst ` set (procMap s)"
    by (metis set_map)
  with assms(2) show ?thesis
    by (simp add: map_of_eq_None_iff)
qed

text \<open>
  The branch of \<open>waitStopped\<close> for a missing entry is never taken: \<^verbatim>\<open>stopAndWait\<close> does
  not panic.
\<close>

lemma waitStopped_no_Panic:
  "map_of (procMap s) name \<noteq> None \<Longrightarrow> waitStopped name w s \<noteq> Panic"
proof (induction w arbitrary: s)
  case Nil
  show ?case by simp
next
  case (Cons evs w)
  let ?s1 = "(occur evs s)\<lparr>world := w\<rparr>"
  have "sameRegistry s ?s1"
    using occur_frame [of s evs] by (simp add: sameRegistry_def)
  from sameRegistry_registered [OF this Cons.prems]
  obtain p where p: "map_of (procMap ?s1) name = Some p" by blast
  then have "map_of (procMap ?s1) name \<noteq> None" by simp
  from Cons.IH [OF this] p show ?case
    by (simp add: Let_def)
qed

lemma stopAndWait_no_Panic: "stopAndWait name s \<noteq> Panic"
proof (cases "map_of (procMap s) name")
  case None
  then show ?thesis by (simp add: stopAndWait_def)
next
  case (Some p)
  then have "map_of (procMap (Operate name StopEvent s)) name \<noteq> None"
    using sameRegistry_registered [OF Operate_frame [of s name StopEvent], of name] by simp
  from waitStopped_no_Panic [OF this, of "world s"] Some show ?thesis
    by (simp add: stopAndWait_def split: outcome.splits)
qed

lemma waitStopped_Return:
  "waitStopped name w s = Return s' \<Longrightarrow>
     \<exists>p. map_of (procMap s') name = Some p \<and> \<not> IsRunning p"
  by (induction name w s rule: waitStopped.induct)
     (auto simp: Let_def split: option.splits if_splits)

lemma stopAndWait_not_running:
  "map_of (procMap s) name = Some q \<Longrightarrow> \<not> IsRunning q \<Longrightarrow> stopAndWait name s = Return (None, s)"
  by (simp add: stopAndWait_def)

text \<open>
  A controller in the state Running accepts the \<^verbatim>\<open>StopEvent\<close>; if no other event reaches it
  before the first wake-up, the call returns then.
\<close>

lemma stopAndWait_Running:
  assumes "map_of (procMap s) name = Some q" and "State q = Running"
    and "world s = evs # w" and "name \<notin> fst ` set evs"
  shows "\<exists>s'. stopAndWait name s = Return (None, s')"
proof -
  let ?s1 = "Operate name StopEvent s"
  have "map_of (procMap ?s1) name = Some (q\<lparr>State := Stopping\<rparr>)"
    using assms(1,2) by (simp add: Operate_def broadcastEvent_def update_conv')
  then have "map_of (procMap ((occur evs ?s1)\<lparr>world := w\<rparr>)) name = Some (q\<lparr>State := Stopping\<rparr>)"
    using assms(4) by (simp add: occur_other)
  then have "waitStopped name (evs # w) ?s1 = Return ((occur evs ?s1)\<lparr>world := w\<rparr>)"
    by (simp add: IsRunning_def Let_def)
  then show ?thesis
    using assms(1,2,3) by (simp add: stopAndWait_def IsRunning_def)
qed

lemma stopAndWait_Running_example:
  "stopAndWait ''a'' (supA Running [[]]) =
     Return (None, (supA Stopping [])\<lparr>eventB := [''a state: Running -> Stopping'']\<rparr>)"
  by (simp add: supA_def stopAndWait_def newProcess_def NewProcess_def IsRunning_def
        Operate_def broadcastEvent_def stateChange_def occur_def pgA_def)

text \<open>
  Claim C3. For a name that has a controller in \<^verbatim>\<open>procMap\<close>: if the controller is not
  running when \<^verbatim>\<open>stopAndWait\<close> is called, the call returns success at once and the
  supervisor is unchanged (no \<^verbatim>\<open>StopEvent\<close> is sent and no event is broadcast); and
  whenever the call returns, it returns success, in a state in which the controller under
  the name is not running.
\<close>

theorem stopAndWait_post:
  assumes "map_of (procMap s) name = Some p"
  shows "(\<not> IsRunning p \<longrightarrow> stopAndWait name s = Return (None, s)) \<and>
         (\<forall>err s'. stopAndWait name s = Return (err, s') \<longrightarrow>
            err = None \<and> (\<exists>p'. map_of (procMap s') name = Some p' \<and> \<not> IsRunning p'))"
  using assms
  by (auto simp: stopAndWait_def split: outcome.splits dest: waitStopped_Return)

text \<open>
  The theorem on a stopped controller, and on a running controller that the call stops:
  the call returns after the first wake-up.
\<close>

theorem stopAndWait_post_witness:
  "map_of (procMap (supA Stopped [])) ''a'' = Some ((newProcess pgA)\<lparr>State := Stopped\<rparr>) \<and>
   \<not> IsRunning ((newProcess pgA)\<lparr>State := Stopped\<rparr>) \<and>
   stopAndWait ''a'' (supA Stopped []) = Return (None, supA Stopped []) \<and>
   map_of (procMap (supA Running [[]])) ''a'' = Some ((newProcess pgA)\<lparr>State := Running\<rparr>) \<and>
   (\<exists>s' p'. stopAndWait ''a'' (supA Running [[]]) = Return (None, s') \<and>
      map_of (procMap s') ''a'' = Some p' \<and> \<not> IsRunning p')"
  using stopAndWait_post [of "supA Stopped []" "''a''" "(newProcess pgA)\<lparr>State := Stopped\<rparr>"]
        stopAndWait_post [of "supA Running [[]]" "''a''" "(newProcess pgA)\<lparr>State := Running\<rparr>"]
        stopAndWait_Running_example
  by (simp add: supA_def newProcess_def NewProcess_def IsRunning_def)

text \<open>
  Claim C10. For a name that is not a key of \<^verbatim>\<open>procMap\<close>, \<^verbatim>\<open>stopAndWait\<close> returns the error
  "No such program", and the supervisor is unchanged: no controller received an event, no
  event was broadcast, and the registry is as before.
\<close>

theorem stopAndWait_unknown:
  "map_of (procMap s) name = None \<Longrightarrow> stopAndWait name s = Return (Some NoSuchProgram, s)"
  by (simp add: stopAndWait_def)

theorem stopAndWait_unknown_witness:
  "map_of (procMap (supA Running [])) ''b'' = None \<and>
   stopAndWait ''b'' (supA Running []) = Return (Some NoSuchProgram, supA Running [])"
  using stopAndWait_unknown [of "supA Running []" "''b''"]
  by (simp add: supA_def)

subsection \<open>addOrUpdateProgram and its goroutine\<close>

lemma swap_effect:
  "map_of (pgMap (swap g s)) (Name (newPg g)) = Some (newPg g)"
  "map_of (procMap (swap g s)) (Name (newPg g)) =
     Some (if isRunning g then (newProcess (newPg g))\<lparr>State := Starting\<rparr> else newProcess (newPg g))"
  "eventB (swap g s) =
     eventB s @ (if isRunning g then [Name (newPg g) @ '' state: Stopped -> Starting''] else [])"
  "names (swap g s) = names s"
  "k \<noteq> Name (newPg g) \<Longrightarrow> map_of (pgMap (swap g s)) k = map_of (pgMap s) k"
  "k \<noteq> Name (newPg g) \<Longrightarrow> map_of (procMap (swap g s)) k = map_of (procMap s) k"
  by (simp_all add: swap_def Let_def Operate_def broadcastEvent_def update_conv' newProcess_def
        NewProcess_def stateChange_def)

text \<open>
  Claim C4, as stated, fails: \<^verbatim>\<open>addOrUpdateProgram\<close> validates the program before it looks
  the name up (web.go:115-117). The program \<open>pgA3\<close> has the name of a registered program
  and differs from the stored one, but it has no command: the call returns the error of
  the check, broadcasts nothing and starts no update.
\<close>

theorem addOrUpdateProgram_invalid_counterexample:
  "map_of (pgMap (supA Running [])) (Name pgA3) = Some pgA \<and> pgA \<noteq> pgA3 \<and>
   addOrUpdateProgram Check pgA3 (supA Running []) =
     Return (Some (ValidationError ''command''), supA Running [])"
  by (simp add: addOrUpdateProgram_def Check_def supA_def pgA_def pgA3_def)

text \<open>
  Claim C4, amended. For every program that passes the check, whose name is registered
  (with a stored program and a controller) and whose fields differ from the stored
  program, \<^verbatim>\<open>addOrUpdateProgram\<close> returns without error, having broadcast "<name> update"
  and started a goroutine that holds the old controller, the new program and whether the
  old controller was running at the call; nothing else changes. Wherever the goroutine
  runs, it calls \<^verbatim>\<open>stopAndWait\<close> on the name of the old controller, and when that call
  returns, the goroutine ends with the new program stored under its name and a fresh
  controller for it, in the state Starting (a \<^verbatim>\<open>StartEvent\<close> was sent and broadcast) if the
  old one was running at the call and in the state Stopped (no event) otherwise; the
  names and the other entries of the two maps are as \<^verbatim>\<open>stopAndWait\<close> left them. The
  goroutine does end when the controller under the old name is not running, and when it is
  in the state Running and no other event reaches it before the first wake-up.
\<close>

theorem addOrUpdateProgram_update:
  assumes "chk pg = None"
    and "map_of (pgMap s) (Name pg) = Some origPg" and "origPg \<noteq> pg"
    and "map_of (procMap s) (Name pg) = Some p"
  shows "addOrUpdateProgram chk pg s =
           Return (None, s\<lparr>eventB := eventB s @ [Name pg @ '' update''],
                            goroutines := goroutines s @
                              [\<lparr>origProc = p, newPg = pg, isRunning = IsRunning p\<rparr>]\<rparr>) \<and>
         (\<forall>t err t1. stopAndWait (Name (Prog p)) t = Return (err, t1) \<longrightarrow>
            (\<exists>t2. updateBody \<lparr>origProc = p, newPg = pg, isRunning = IsRunning p\<rparr> t = Return t2 \<and>
                  map_of (pgMap t2) (Name pg) = Some pg \<and>
                  map_of (procMap t2) (Name pg) =
                    Some (if IsRunning p then (newProcess pg)\<lparr>State := Starting\<rparr> else newProcess pg) \<and>
                  eventB t2 =
                    eventB t1 @ (if IsRunning p then [Name pg @ '' state: Stopped -> Starting''] else []) \<and>
                  names t2 = names t1 \<and>
                  (\<forall>k. k \<noteq> Name pg \<longrightarrow>
                     map_of (pgMap t2) k = map_of (pgMap t1) k \<and>
                     map_of (procMap t2) k = map_of (procMap t1) k))) \<and>
         (\<forall>t q. map_of (procMap t) (Name (Prog p)) = Some q \<longrightarrow>
            (\<not> IsRunning q \<or>
             (State q = Running \<and> (\<exists>evs w. world t = evs # w \<and> Name (Prog p) \<notin> fst ` set evs))) \<longrightarrow>
            (\<exists>t2. updateBody \<lparr>origProc = p, newPg = pg, isRunning = IsRunning p\<rparr> t = Return t2))"
  (is "?A \<and> ?B \<and> ?C")
proof -
  let ?g = "\<lparr>origProc = p, newPg = pg, isRunning = IsRunning p\<rparr>"
  have a: ?A
    using assms by (simp add: addOrUpdateProgram_def broadcastEvent_def)
  have b: ?B
  proof (intro allI impI)
    fix t err t1
    assume "stopAndWait (Name (Prog p)) t = Return (err, t1)"
    then have "updateBody ?g t = Return (swap ?g t1)"
      by (simp add: updateBody_def)
    then show "\<exists>t2. updateBody ?g t = Return t2 \<and>
                  map_of (pgMap t2) (Name pg) = Some pg \<and>
                  map_of (procMap t2) (Name pg) =
                    Some (if IsRunning p then (newProcess pg)\<lparr>State := Starting\<rparr> else newProcess pg) \<and>
                  eventB t2 =
                    eventB t1 @ (if IsRunning p then [Name pg @ '' state: Stopped -> Starting''] else []) \<and>
                  names t2 = names t1 \<and>
                  (\<forall>k. k \<noteq> Name pg \<longrightarrow>
                     map_of (pgMap t2) k = map_of (pgMap t1) k \<and>
                     map_of (procMap t2) k = map_of (procMap t1) k)"
      using swap_effect [where g = ?g and s = t1] by simp
  qed
  have c: ?C
  proof (intro allI impI)
    fix t :: Supervisor and q :: Process
    assume q: "map_of (procMap t) (Name (Prog p)) = Some q"
      and "\<not> IsRunning q \<or>
             (State q = Running \<and> (\<exists>evs w. world t = evs # w \<and> Name (Prog p) \<notin> fst ` set evs))"
    then have "\<exists>t1. stopAndWait (Name (Prog p)) t = Return (None, t1)"
      using stopAndWait_not_running [OF q] stopAndWait_Running [OF q] by blast
    then show "\<exists>t2. updateBody ?g t = Return t2"
      by (auto simp: updateBody_def)
  qed
  from a b c show ?thesis by blast
qed

text \<open>
  The theorem on the update of the running program \<open>pgA\<close> to \<open>pgA2\<close>, with one wake-up
  of the goroutine before which nothing else happens.
\<close>

theorem addOrUpdateProgram_update_witness:
  "Check pgA2 = None \<and>
   map_of (pgMap (supA Running [[]])) (Name pgA2) = Some pgA \<and> pgA \<noteq> pgA2 \<and>
   map_of (procMap (supA Running [[]])) (Name pgA2) = Some ((newProcess pgA)\<lparr>State := Running\<rparr>) \<and>
   addOrUpdateProgram Check pgA2 (supA Running [[]]) =
     Return (None, (supA Running [[]])
       \<lparr>eventB := [''a update''],
        goroutines := [\<lparr>origProc = (newProcess pgA)\<lparr>State := Running\<rparr>, newPg = pgA2,
                        isRunning = True\<rparr>]\<rparr>) \<and>
   (\<exists>t1 t2.
      stopAndWait ''a'' ((supA Running [[]])\<lparr>eventB := [''a update'']\<rparr>) = Return (None, t1) \<and>
      updateBody \<lparr>origProc = (newProcess pgA)\<lparr>State := Running\<rparr>, newPg = pgA2, isRunning = True\<rparr>
        ((supA Running [[]])\<lparr>eventB := [''a update'']\<rparr>) = Return t2 \<and>
      names t2 = [''a''] \<and>
      pgMap t2 = [(''a'', pgA2)] \<and>
      procMap t2 = [(''a'', (newProcess pgA2)\<lparr>State := Starting\<rparr>)] \<and>
      eventB t2 = [''a update'', ''a state: Running -> Stopping'', ''a state: Stopped -> Starting''])"
  using addOrUpdateProgram_update [of Check pgA2 "supA Running [[]]" pgA
          "(newProcess pgA)\<lparr>State := Running\<rparr>"]
  by (simp add: example_defs updateBody_def stopAndWait_def swap_def)

text \<open>
  Claim C9 fails on the code: the body of the goroutine takes no lock. Whenever the body
  runs to its end from a state in which the mutex is unlocked, the mutex is unlocked when
  \<^verbatim>\<open>stopAndWait\<close> returns, the two maps are assigned in that state, and the mutex is
  unlocked afterwards.
\<close>

theorem updateBody_unlocked:
  assumes "\<not> mu s" and "updateBody g s = Return s'"
  shows "\<exists>err s1. stopAndWait (Name (Prog (origProc g))) s = Return (err, s1) \<and>
           \<not> mu s1 \<and> s' = swap g s1 \<and> \<not> mu s'"
proof -
  from assms(2) obtain err s1
    where r: "stopAndWait (Name (Prog (origProc g))) s = Return (err, s1)" and s': "s' = swap g s1"
    by (auto simp: updateBody_def split: outcome.splits)
  from stopAndWait_mu [OF r] assms(1) have "\<not> mu s1" by simp
  with r s' show ?thesis by (simp add: swap_mu)
qed

text \<open>
  The failing run: \<^verbatim>\<open>loadDB\<close> finds \<open>pgA2\<close> in the file while \<open>pgA\<close> is registered, starts
  the goroutine and returns, which unlocks the mutex; the goroutine then replaces both
  entries without the lock.
\<close>

theorem updateBody_unlocked_witness:
  "loadDB Check (unmarshalTable [(''new'', [pgA2])]) (Inr ''new'') (supA Stopped []) =
     Return (None, (supA Stopped [])
       \<lparr>eventB := [''a update''],
        goroutines := [\<lparr>origProc = newProcess pgA, newPg = pgA2, isRunning = False\<rparr>]\<rparr>) \<and>
   \<not> mu ((supA Stopped [])
       \<lparr>eventB := [''a update''],
        goroutines := [\<lparr>origProc = newProcess pgA, newPg = pgA2, isRunning = False\<rparr>]\<rparr>) \<and>
   (\<exists>s'. updateBody \<lparr>origProc = newProcess pgA, newPg = pgA2, isRunning = False\<rparr>
       ((supA Stopped [])
         \<lparr>eventB := [''a update''],
          goroutines := [\<lparr>origProc = newProcess pgA, newPg = pgA2, isRunning = False\<rparr>]\<rparr>) = Return s' \<and>
       pgMap s' = [(''a'', pgA2)] \<and> procMap s' = [(''a'', newProcess pgA2)] \<and> \<not> mu s')"
  using updateBody_unlocked [of "(supA Stopped [])
       \<lparr>eventB := [''a update''],
        goroutines := [\<lparr>origProc = newProcess pgA, newPg = pgA2, isRunning = False\<rparr>]\<rparr>"
       "\<lparr>origProc = newProcess pgA, newPg = pgA2, isRunning = False\<rparr>"]
  by (simp add: example_defs loadDB_def readConfigFromDB_def addOrUpdateProgram_def
        updateBody_def stopAndWait_def swap_def)

subsection \<open>loadDB\<close>

lemma findDuplicate_None:
  "findDuplicate visited pgs = None \<longleftrightarrow>
     distinct (map Name pgs) \<and> set (map Name pgs) \<inter> set visited = {}"
  by (induction pgs arbitrary: visited) auto

lemma findDuplicate_Some:
  "findDuplicate visited pgs = Some err \<Longrightarrow> \<exists>pg \<in> set pgs. err = DuplicatedProgramName (Name pg)"
  by (induction pgs arbitrary: visited) (auto split: if_splits)

lemma loadDB_duplicate_example:
  "loadDB Check (unmarshalTable [(''two'', [pgA2, pgB, pgA])]) (Inr ''two'') (supA Running []) =
     Return (Some (DuplicatedProgramName ''a''), supA Running [])"
  by (simp add: loadDB_def readConfigFromDB_def supA_def unmarshalTable_def pgA_def pgA2_def pgB_def)

text \<open>
  Claim C2. When the list read from the file has two programs of the same name, \<^verbatim>\<open>loadDB\<close>
  (called with the mutex unlocked; it blocks otherwise) returns the error that names a
  repeated program, and the supervisor is the one before the call: the names, both maps,
  the controllers and the broadcast events are unchanged.
\<close>

theorem loadDB_duplicate:
  assumes "\<not> mu s" and "unmarshal data = Inr pgs" and "\<not> distinct (map Name pgs)"
  shows "\<exists>pg \<in> set pgs.
           loadDB chk unmarshal (Inr data) s = Return (Some (DuplicatedProgramName (Name pg)), s)"
proof -
  from assms(3) obtain err where e: "findDuplicate [] pgs = Some err"
    using findDuplicate_None [of "[]" pgs] by (cases "findDuplicate [] pgs") auto
  from findDuplicate_Some [OF e] obtain pg
    where "pg \<in> set pgs" "err = DuplicatedProgramName (Name pg)"
    by blast
  with e assms(1,2) show ?thesis
    by (auto simp: loadDB_def readConfigFromDB_def unlock_id intro!: bexI [of _ pg])
qed

theorem loadDB_duplicate_witness:
  "\<not> mu (supA Running []) \<and>
   unmarshalTable [(''two'', [pgA2, pgB, pgA])] ''two'' = Inr [pgA2, pgB, pgA] \<and>
   \<not> distinct (map Name [pgA2, pgB, pgA]) \<and>
   loadDB Check (unmarshalTable [(''two'', [pgA2, pgB, pgA])]) (Inr ''two'') (supA Running []) =
     Return (Some (DuplicatedProgramName ''a''), supA Running [])"
  using loadDB_duplicate [of "supA Running []" "unmarshalTable [(''two'', [pgA2, pgB, pgA])]"
          "''two''" "[pgA2, pgB, pgA]" Check] loadDB_duplicate_example
  by (simp add: supA_def unmarshalTable_def pgA_def pgA2_def pgB_def)

lemma addOrUpdateProgram_same:
  "map_of (pgMap s) (Name pg) = Some pg \<Longrightarrow> \<exists>err. addOrUpdateProgram chk pg s = Return (err, s)"
  by (simp add: addOrUpdateProgram_def split: option.splits)

lemma addOrUpdateAll_same:
  "\<forall>pg \<in> set pgs. map_of (pgMap s) (Name pg) = Some pg \<Longrightarrow> addOrUpdateAll chk pgs s = Return s"
proof (induction pgs)
  case Nil
  then show ?case by simp
next
  case (Cons pg pgs)
  then obtain err where "addOrUpdateProgram chk pg s = Return (err, s)"
    using addOrUpdateProgram_same [of s pg chk] by auto
  with Cons show ?case by simp
qed

lemma deleteNotVisited_all_visited:
  "\<forall>(key, pg) \<in> set entries. Name pg \<in> set visited \<Longrightarrow>
     deleteNotVisited visited entries s = Return s"
  by (induction entries) auto

lemma map_of_keyed:
  assumes "list_all (\<lambda>(key, pg). Name pg = key) al" and "map_of al k = Some pg"
  shows "Name pg = k"
  using assms by (induction al) (auto split: if_splits)

text \<open>
  When the names are the keys of \<^verbatim>\<open>pgMap\<close> and every program is stored under its name,
  \<^verbatim>\<open>programs\<close> lists the stored programs in the order of the names.
\<close>

lemma programs_registered:
  assumes "set (names s) = set (map fst (pgMap s))" and "keyedByName s"
  shows "map Name (programs s) = names s"
    and "\<forall>pg \<in> set (programs s). map_of (pgMap s) (Name pg) = Some pg"
proof -
  have reg: "\<exists>pg. map_of (pgMap s) n = Some pg \<and> Name pg = n" if "n \<in> set (names s)" for n
  proof -
    from that assms(1) have "n \<in> fst ` set (pgMap s)" by simp
    then obtain pg where "map_of (pgMap s) n = Some pg"
      by (cases "map_of (pgMap s) n") (auto simp: map_of_eq_None_iff)
    with assms(2) show ?thesis by (auto simp: keyedByName_def dest: map_of_keyed)
  qed
  have "map (\<lambda>n. Name (case map_of (pgMap s) n of Some pg \<Rightarrow> pg | None \<Rightarrow> zeroProgram)) (names s) =
          names s"
  proof (rule map_idI)
    fix n assume "n \<in> set (names s)"
    from reg [OF this] obtain pg where "map_of (pgMap s) n = Some pg" "Name pg = n" by blast
    then show "Name (case map_of (pgMap s) n of Some pg \<Rightarrow> pg | None \<Rightarrow> zeroProgram) = n" by simp
  qed
  then show "map Name (programs s) = names s"
    by (simp add: programs_def comp_def)
  show "\<forall>pg \<in> set (programs s). map_of (pgMap s) (Name pg) = Some pg"
  proof
    fix pg assume "pg \<in> set (programs s)"
    then obtain n where n: "n \<in> set (names s)"
      and pg: "pg = (case map_of (pgMap s) n of Some pg \<Rightarrow> pg | None \<Rightarrow> zeroProgram)"
      by (auto simp: programs_def)
    from reg [OF n] obtain pg' where "map_of (pgMap s) n = Some pg'" "Name pg' = n" by blast
    with pg show "map_of (pgMap s) (Name pg) = Some pg" by simp
  qed
qed

lemma loadDB_idempotent_example:
  "loadDB Check (unmarshalTable [(''cur'', [pgA])]) (Inr ''cur'') (supA Running []) =
     Return (None, supA Running [])"
  by (simp add: example_defs loadDB_def readConfigFromDB_def addOrUpdateProgram_def)

text \<open>
  Claim C7. Let the file list exactly the registered programs, entry for entry in the
  order of the names: the names are the keys of \<^verbatim>\<open>pgMap\<close>, every program is stored under
  its name, and the list of the file is \<^verbatim>\<open>programs\<close>. Then \<^verbatim>\<open>loadDB\<close> (called with the
  mutex unlocked; it blocks otherwise) returns and the supervisor is the one before the
  call: the names, the stored programs, the controllers with their states and the
  broadcast events are unchanged, so no controller made a transition and no event was
  emitted. The call returns no error when the names are distinct.
\<close>

theorem loadDB_idempotent:
  assumes "\<not> mu s" and "set (names s) = set (map fst (pgMap s))" and "keyedByName s"
    and "unmarshal data = Inr (programs s)"
  shows "\<exists>err. loadDB chk unmarshal (Inr data) s = Return (err, s) \<and>
               (distinct (names s) \<longrightarrow> err = None)"
proof (cases "findDuplicate [] (programs s)")
  case (Some err)
  with assms(1,4) have "loadDB chk unmarshal (Inr data) s = Return (Some err, s)"
    by (simp add: loadDB_def readConfigFromDB_def unlock_id)
  moreover from Some have "\<not> distinct (names s)"
    using findDuplicate_None [of "[]" "programs s"] programs_registered(1) [OF assms(2,3)] by auto
  ultimately show ?thesis by simp
next
  case None
  let ?s0 = "s\<lparr>mu := True\<rparr>"
  have 1: "addOrUpdateAll chk (programs s) ?s0 = Return ?s0"
    using programs_registered(2) [OF assms(2,3)] by (intro addOrUpdateAll_same) simp
  have 2: "?s0\<lparr>names := map Name (programs s)\<rparr> = ?s0"
    by (simp add: programs_registered(1) [OF assms(2,3)])
  have "\<forall>(key, pg) \<in> set (pgMap s). Name pg \<in> set (names s)"
  proof (clarify)
    fix key pg assume kp: "(key, pg) \<in> set (pgMap s)"
    with assms(3) have "Name pg = key" by (auto simp: keyedByName_def list_all_iff)
    moreover from kp have "key \<in> fst ` set (pgMap s)" by force
    ultimately show "Name pg \<in> set (names s)" using assms(2) by simp
  qed
  then have 3: "deleteNotVisited (names s) (pgMap s) ?s0 = Return ?s0"
    by (rule deleteNotVisited_all_visited)
  have "loadDB chk unmarshal (Inr data) s = Return (None, s)"
    using assms(1,4) None 1 2 3
    by (simp add: loadDB_def readConfigFromDB_def unlock_id programs_registered(1) [OF assms(2,3)])
  then show ?thesis by simp
qed

theorem loadDB_idempotent_witness:
  "\<not> mu (supA Running []) \<and>
   set (names (supA Running [])) = set (map fst (pgMap (supA Running []))) \<and>
   keyedByName (supA Running []) \<and>
   unmarshalTable [(''cur'', [pgA])] ''cur'' = Inr (programs (supA Running [])) \<and>
   distinct (names (supA Running [])) \<and>
   loadDB Check (unmarshalTable [(''cur'', [pgA])]) (Inr ''cur'') (supA Running []) =
     Return (None, supA Running [])"
  using loadDB_idempotent [of "supA Running []" "unmarshalTable [(''cur'', [pgA])]" "''cur''" Check]
        loadDB_idempotent_example
  by (simp add: supA_def unmarshalTable_def keyedByName_def programs_def pgA_def)

text \<open>What \<^verbatim>\<open>loadDB\<close> does to the names and to the keys of the two maps.\<close>

lemma deleteNotVisited_names:
  "deleteNotVisited visited entries s = Return s' \<Longrightarrow> names s' = names s \<and> mu s' = mu s"
proof (induction entries arbitrary: s)
  case Nil
  then show ?case by simp
next
  case (Cons e entries)
  obtain key pg where e: "e = (key, pg)" by (cases e)
  show ?case
  proof (cases "map_of (pgMap s) key = None \<or> Name pg \<in> set visited")
    case True
    with Cons.prems e have "deleteNotVisited visited entries s = Return s'"
      by (auto split: if_splits)
    then show ?thesis by (rule Cons.IH)
  next
    case False
    with Cons.prems e obtain err s1 where r: "stopAndWait (Name pg) s = Return (err, s1)"
      and d: "deleteNotVisited visited entries
               (broadcastEvent (Name pg @ '' deleted'')
                  (s1\<lparr>procMap := AList.delete (Name pg) (procMap s1),
                      pgMap := AList.delete (Name pg) (pgMap s1)\<rparr>)) = Return s'"
      by (auto split: outcome.splits if_splits)
    from Cons.IH [OF d] stopAndWait_frame [OF r] show ?thesis
      by (simp add: broadcastEvent_def sameRegistry_def)
  qed
qed

text \<open>After \<^verbatim>\<open>loadDB\<close> the names are the names of all programs of the file.\<close>

lemma loadDB_names:
  assumes "loadDB chk unmarshal file s = Return (None, s')"
  shows "\<exists>pgs. readConfigFromDB unmarshal file = Inr pgs \<and> names s' = map Name pgs"
proof -
  from assms obtain pgs s1 s3 where rd: "readConfigFromDB unmarshal file = Inr pgs"
    and "addOrUpdateAll chk pgs (s\<lparr>mu := True\<rparr>) = Return s1"
    and d: "deleteNotVisited (map Name pgs) (pgMap s1) (s1\<lparr>names := map Name pgs\<rparr>) = Return s3"
    and s': "s' = s3\<lparr>mu := False\<rparr>"
    by (auto simp: loadDB_def Let_def split: if_splits sum.splits outcome.splits)
  from deleteNotVisited_names [OF d] s' have "names s' = map Name pgs" by simp
  with rd show ?thesis by simp
qed

lemma list_all_update:
  "P (k, v) \<Longrightarrow> list_all P al \<Longrightarrow> list_all P (AList.update k v al)"
  by (induction al) auto

lemma keys_delete: "fst ` set (AList.delete k al) = fst ` set al - {k}"
  by (induction al) auto

lemma list_all_delete: "list_all P al \<Longrightarrow> list_all P (AList.delete k al)"
  by (induction al) auto

lemma map_of_Some_key: "map_of al k = Some v \<Longrightarrow> k \<in> fst ` set al"
  by (metis domI dom_map_of_conv_image_fst)

lemma addOrUpdateProgram_keys:
  assumes r: "addOrUpdateProgram chk pg s = Return (err, s')"
    and kp: "fst ` set (pgMap s) = fst ` set (procMap s)" and kn: "keyedByName s"
  shows "fst ` set (pgMap s') = fst ` set (procMap s') \<and> keyedByName s' \<and>
         fst ` set (pgMap s') = fst ` set (pgMap s) \<union> (if chk pg = None then {Name pg} else {})"
proof (cases "chk pg")
  case (Some e)
  with r have "s' = s" by (simp add: addOrUpdateProgram_def)
  with Some kp kn show ?thesis by simp
next
  case None
  show ?thesis
  proof (cases "map_of (pgMap s) (Name pg)")
    case (Some origPg)
    then have k: "Name pg \<in> fst ` set (pgMap s)" by (rule map_of_Some_key)
    have "pgMap s' = pgMap s \<and> procMap s' = procMap s"
      using r None Some
      by (auto simp: addOrUpdateProgram_def broadcastEvent_def Let_def
          split: if_splits option.splits)
    with kp kn k None show ?thesis by (auto simp: keyedByName_def)
  next
    case nreg: None
    with r None have s': "s' = broadcastEvent (Name pg @ '' added'')
                   (s\<lparr>names := names s @ [Name pg],
                      pgMap := AList.update (Name pg) pg (pgMap s),
                      procMap := AList.update (Name pg) (newProcess pg) (procMap s)\<rparr>)"
      by (simp add: addOrUpdateProgram_def)
    have "keyedByName s'"
      using kn unfolding s' keyedByName_def broadcastEvent_def
      by (simp add: list_all_update)
    moreover have "fst ` set (pgMap s') = fst ` set (pgMap s) \<union> {Name pg}"
      unfolding s' broadcastEvent_def by (simp add: dom_update)
    moreover have "fst ` set (procMap s') = fst ` set (procMap s) \<union> {Name pg}"
      unfolding s' broadcastEvent_def by (simp add: dom_update)
    ultimately show ?thesis using kp None by simp
  qed
qed

lemma addOrUpdateAll_keys:
  assumes "addOrUpdateAll chk pgs s = Return s'"
    and "fst ` set (pgMap s) = fst ` set (procMap s)" and "keyedByName s"
  shows "fst ` set (pgMap s') = fst ` set (procMap s') \<and> keyedByName s' \<and>
         fst ` set (pgMap s') = fst ` set (pgMap s) \<union> Name ` {pg \<in> set pgs. chk pg = None}"
  using assms
proof (induction pgs arbitrary: s)
  case Nil
  then show ?case by simp
next
  case (Cons pg pgs)
  from Cons.prems(1) obtain err s1 where r: "addOrUpdateProgram chk pg s = Return (err, s1)"
    and rest: "addOrUpdateAll chk pgs s1 = Return s'"
    by (auto split: outcome.splits)
  from addOrUpdateProgram_keys [OF r Cons.prems(2,3)]
  have 1: "fst ` set (pgMap s1) = fst ` set (procMap s1)" and 2: "keyedByName s1"
    and 3: "fst ` set (pgMap s1) = fst ` set (pgMap s) \<union> (if chk pg = None then {Name pg} else {})"
    by blast+
  from Cons.IH [OF rest 1 2]
  have 4: "fst ` set (pgMap s') = fst ` set (procMap s')" and 5: "keyedByName s'"
    and 6: "fst ` set (pgMap s') = fst ` set (pgMap s1) \<union> Name ` {pg \<in> set pgs. chk pg = None}"
    by blast+
  have "fst ` set (pgMap s') =
          fst ` set (pgMap s) \<union> Name ` {pg' \<in> set (pg # pgs). chk pg' = None}"
    unfolding 6 3 by auto
  with 4 5 show ?case by blast
qed

lemma deleteNotVisited_keys:
  assumes "deleteNotVisited visited entries s = Return s'"
    and "fst ` set (pgMap s) = fst ` set (procMap s)" and "keyedByName s"
    and "list_all (\<lambda>(key, pg). Name pg = key) entries"
  shows "fst ` set (pgMap s') = fst ` set (procMap s') \<and> keyedByName s' \<and>
         fst ` set (pgMap s') = fst ` set (pgMap s) - {k \<in> fst ` set entries. k \<notin> set visited}"
  using assms
proof (induction entries arbitrary: s)
  case Nil
  then show ?case by simp
next
  case (Cons e entries)
  obtain key pg where e: "e = (key, pg)" by (cases e)
  with Cons.prems(4) have key: "Name pg = key" and ents: "list_all (\<lambda>(key, pg). Name pg = key) entries"
    by simp_all
  show ?case
  proof (cases "map_of (pgMap s) key = None \<or> Name pg \<in> set visited")
    case True
    with Cons.prems(1) e have "deleteNotVisited visited entries s = Return s'"
      by (auto split: if_splits)
    from Cons.IH [OF this Cons.prems(2,3) ents]
    have 4: "fst ` set (pgMap s') = fst ` set (procMap s')" and 5: "keyedByName s'"
      and 6: "fst ` set (pgMap s') =
                fst ` set (pgMap s) - {k \<in> fst ` set entries. k \<notin> set visited}"
      by blast+
    from True key have "key \<notin> fst ` set (pgMap s) \<or> key \<in> set visited"
      by (auto simp: map_of_eq_None_iff)
    then have "fst ` set (pgMap s') =
                fst ` set (pgMap s) - {k \<in> fst ` set (e # entries). k \<notin> set visited}"
      unfolding 6 e by auto
    with 4 5 show ?thesis by blast
  next
    case False
    let ?del = "\<lambda>s1. broadcastEvent (Name pg @ '' deleted'')
                  (s1\<lparr>procMap := AList.delete (Name pg) (procMap s1),
                      pgMap := AList.delete (Name pg) (pgMap s1)\<rparr>)"
    from False Cons.prems(1) e obtain err s1 where r: "stopAndWait (Name pg) s = Return (err, s1)"
      and d: "deleteNotVisited visited entries (?del s1) = Return s'"
      by (auto split: outcome.splits if_splits)
    from stopAndWait_frame [OF r] have f: "pgMap s1 = pgMap s" "map fst (procMap s1) = map fst (procMap s)"
      by (simp_all add: sameRegistry_def)
    from f(2) have f2: "fst ` set (procMap s1) = fst ` set (procMap s)"
      by (metis set_map)
    have 1: "fst ` set (pgMap (?del s1)) = fst ` set (procMap (?del s1))"
      using Cons.prems(2) f(1) f2 by (simp add: broadcastEvent_def keys_delete)
    have 2: "keyedByName (?del s1)"
      using Cons.prems(3) f(1) by (simp add: broadcastEvent_def keyedByName_def list_all_delete)
    have 3: "fst ` set (pgMap (?del s1)) = fst ` set (pgMap s) - {key}"
      using f(1) key by (simp add: broadcastEvent_def keys_delete)
    from Cons.IH [OF d 1 2 ents]
    have 4: "fst ` set (pgMap s') = fst ` set (procMap s')" and 5: "keyedByName s'"
      and 6: "fst ` set (pgMap s') =
                fst ` set (pgMap (?del s1)) - {k \<in> fst ` set entries. k \<notin> set visited}"
      by blast+
    from False key have "key \<notin> set visited" by simp
    then have "fst ` set (pgMap s') =
                fst ` set (pgMap s) - {k \<in> fst ` set (e # entries). k \<notin> set visited}"
      unfolding 6 3 e by auto
    with 4 5 show ?thesis by blast
  qed
qed

text \<open>
  The invariant survives \<^verbatim>\<open>loadDB\<close> when every program of the file passes the check or
  has its name in the registry already.
\<close>

lemma loadDB_keysAgree:
  assumes inv: "keysAgree s" "keyedByName s"
    and r: "loadDB chk unmarshal file s = Return (None, s')"
    and rd: "readConfigFromDB unmarshal file = Inr pgs"
    and ok: "\<forall>pg \<in> set pgs. chk pg = None \<or> Name pg \<in> set (names s)"
  shows "keysAgree s' \<and> keyedByName s'"
proof -
  from r rd obtain s1 s3 where
        a: "addOrUpdateAll chk pgs (s\<lparr>mu := True\<rparr>) = Return s1"
    and d: "deleteNotVisited (map Name pgs) (pgMap s1) (s1\<lparr>names := map Name pgs\<rparr>) = Return s3"
    and s': "s' = s3\<lparr>mu := False\<rparr>"
    by (auto simp: loadDB_def Let_def split: if_splits sum.splits outcome.splits)
  let ?s0 = "s\<lparr>mu := True\<rparr>"
  from inv have 0: "fst ` set (pgMap ?s0) = fst ` set (procMap ?s0)" "keyedByName ?s0"
    by (simp_all add: keysAgree_def keyedByName_def)
  from addOrUpdateAll_keys [OF a 0]
  have 1: "fst ` set (pgMap s1) = fst ` set (procMap s1)" and 2: "keyedByName s1"
    and "fst ` set (pgMap s1) = fst ` set (pgMap ?s0) \<union> Name ` {pg \<in> set pgs. chk pg = None}"
    by blast+
  then have 3: "fst ` set (pgMap s1) = fst ` set (pgMap s) \<union> Name ` {pg \<in> set pgs. chk pg = None}"
    by simp
  let ?s2 = "s1\<lparr>names := map Name pgs\<rparr>"
  from 1 2 have 4: "fst ` set (pgMap ?s2) = fst ` set (procMap ?s2)" "keyedByName ?s2"
    by (simp_all add: keyedByName_def)
  from 2 have 5: "list_all (\<lambda>(key, pg). Name pg = key) (pgMap s1)"
    by (simp add: keyedByName_def)
  from deleteNotVisited_keys [OF d 4 5]
  have 6: "fst ` set (pgMap s3) = fst ` set (procMap s3)" and 7: "keyedByName s3"
    and "fst ` set (pgMap s3) =
              fst ` set (pgMap ?s2) - {k \<in> fst ` set (pgMap s1). k \<notin> set (map Name pgs)}"
    by blast+
  then have 8: "fst ` set (pgMap s3) =
              fst ` set (pgMap s1) - {k \<in> fst ` set (pgMap s1). k \<notin> set (map Name pgs)}"
    by simp
  from deleteNotVisited_names [OF d] have 9: "names s3 = map Name pgs" by simp
  from ok inv(1) have "Name ` set pgs \<subseteq> fst ` set (pgMap s) \<union> Name ` {pg \<in> set pgs. chk pg = None}"
    by (auto simp: keysAgree_def)
  then have 10: "fst ` set (pgMap s3) = Name ` set pgs"
    unfolding 8 3 by auto
  have "set (names s') = set (map fst (pgMap s'))"
    using 9 10 s' by simp
  moreover have "set (map fst (pgMap s')) = set (map fst (procMap s'))"
    using 6 s' by simp
  moreover have "keyedByName s'"
    using 7 s' by (simp add: keyedByName_def)
  ultimately show ?thesis
    by (simp add: keysAgree_def)
qed

text \<open>
  Claim C1 fails on the code. The file lists one program, \<open>pgB\<close>, which fails the check
  (it has no command). \<^verbatim>\<open>loadDB\<close> on the empty registry returns without error, and the
  name of \<open>pgB\<close> is in the names although neither map has an entry for it: \<^verbatim>\<open>loadDB\<close>
  appends the name before it calls \<^verbatim>\<open>addOrUpdateProgram\<close> and drops the error
  (web.go:180-182).
\<close>

theorem loadDB_invalid_entry_names:
  "Check pgB = Some (ValidationError ''command'') \<and>
   loadDB Check (unmarshalTable [(''one'', [pgB])]) (Inr ''one'') (newSupervisor ''/root/.gosuv'') =
     Return (None, (newSupervisor ''/root/.gosuv'')\<lparr>names := [''b'']\<rparr>) \<and>
   map_of (pgMap ((newSupervisor ''/root/.gosuv'')\<lparr>names := [''b'']\<rparr>)) ''b'' = None \<and>
   map_of (procMap ((newSupervisor ''/root/.gosuv'')\<lparr>names := [''b'']\<rparr>)) ''b'' = None"
  by (simp add: example_defs loadDB_def readConfigFromDB_def addOrUpdateProgram_def)

text \<open>
  Claim C5 fails on the code. The file lists the valid program \<open>pgA\<close> and the invalid
  program \<open>pgB\<close>. After \<^verbatim>\<open>loadDB\<close> on the empty registry the names are those of both
  programs, while the names of the list without its failed entry are that of \<open>pgA\<close> alone.
\<close>

theorem loadDB_names_keep_failed:
  "loadDB Check (unmarshalTable [(''both'', [pgA, pgB])]) (Inr ''both'') (newSupervisor ''/root/.gosuv'') =
     Return (None,
       \<lparr>ConfigDir = ''/root/.gosuv'', names = [''a'', ''b''], pgMap = [(''a'', pgA)],
        procMap = [(''a'', newProcess pgA)], mu = False, eventB = [''a added''],
        goroutines = [], world = []\<rparr>) \<and>
   map Name (filter (\<lambda>pg. Check pg = None) [pgA, pgB]) = [''a'']"
  by (simp add: example_defs loadDB_def readConfigFromDB_def addOrUpdateProgram_def)

text \<open>
  Claim C6, as stated, fails for \<^verbatim>\<open>loadDB\<close>: \<^verbatim>\<open>readConfigFromDB\<close> replaces a failed read by
  empty data (web.go:152-154). With \<open>pgA\<close> registered and stopped, a read that fails makes
  \<^verbatim>\<open>loadDB\<close> return no error, and the registry is empty afterwards: the program was
  deleted as one that the file does not list.
\<close>

theorem loadDB_read_failure_counterexample:
  "loadDB Check (unmarshalTable []) (Inl (IOError ''open programs.yml: no such file or directory''))
     (supA Stopped []) =
   Return (None, (newSupervisor ''/root/.gosuv'')\<lparr>eventB := [''a deleted'']\<rparr>)"
  by (simp add: loadDB_def readConfigFromDB_def unmarshalTable_def supA_def newSupervisor_def
        stopAndWait_def IsRunning_def newProcess_def NewProcess_def broadcastEvent_def pgA_def)

text \<open>
  Claim C6, amended. A read of the configuration that fails during \<^verbatim>\<open>loadDB\<close> is not
  returned: \<^verbatim>\<open>loadDB\<close> does exactly what it does on an empty file. A write that fails
  during \<^verbatim>\<open>saveDB\<close> (called with the mutex unlocked) is returned to the caller, and the
  supervisor is unchanged.
\<close>

theorem persistence_failures:
  "loadDB chk unmarshal (Inl err) s = loadDB chk unmarshal (Inr []) s \<and>
   (\<not> mu s \<longrightarrow> marshal (programs s) = Inr data \<longrightarrow> writeFile data = Some err' \<longrightarrow>
      saveDB marshal writeFile s = Return (Some err', s))"
proof -
  have "programs (s\<lparr>mu := True\<rparr>) = programs s"
    by (simp add: programs_def)
  then show ?thesis
    by (simp add: loadDB_def readConfigFromDB_def saveDB_def unlock_id)
qed

theorem persistence_failures_witness:
  "loadDB Check (unmarshalTable []) (Inl (IOError ''open programs.yml: no such file or directory''))
     (supA Stopped []) =
   loadDB Check (unmarshalTable []) (Inr []) (supA Stopped []) \<and>
   \<not> mu (supA Stopped []) \<and>
   marshalNames (programs (supA Stopped [])) = Inr ''a;'' \<and>
   saveDB marshalNames (\<lambda>data. Some (IOError ''disk full'')) (supA Stopped []) =
     Return (Some (IOError ''disk full''), supA Stopped [])"
  using persistence_failures [of Check "unmarshalTable []"
          "IOError ''open programs.yml: no such file or directory''" "supA Stopped []"
          marshalNames "''a;''" "\<lambda>data. Some (IOError ''disk full'')" "IOError ''disk full''"]
  by (simp add: supA_def programs_def marshalNames_def pgA_def)

subsection \<open>saveDB\<close>

lemma programs_nth:
  "i < length (names s) \<Longrightarrow> map_of (pgMap s) (names s ! i) = Some pg \<Longrightarrow> programs s ! i = pg"
  by (simp add: programs_def)

lemma length_programs: "length (programs s) = length (names s)"
  by (simp add: programs_def)

text \<open>
  Claim C8. \<^verbatim>\<open>saveDB\<close> (called with the mutex unlocked) returns the error of the
  serialization, or else the result of writing the serialized list \<^verbatim>\<open>programs\<close>, and the
  supervisor is the one before the call in both cases and whether the write fails or not.
  The list that is serialized has one program for each name, in the order of the names:
  at each position, the program stored under the name at that position.
\<close>

theorem saveDB_frame:
  assumes "\<not> mu s"
  shows "saveDB marshal writeFile s =
           Return (case marshal (programs s) of Inl err \<Rightarrow> Some err | Inr data \<Rightarrow> writeFile data, s) \<and>
         length (programs s) = length (names s) \<and>
         (\<forall>i < length (names s). \<forall>pg.
            map_of (pgMap s) (names s ! i) = Some pg \<longrightarrow> programs s ! i = pg)"
proof -
  have "programs (s\<lparr>mu := True\<rparr>) = programs s"
    by (simp add: programs_def)
  with assms have "saveDB marshal writeFile s =
      Return (case marshal (programs s) of Inl err \<Rightarrow> Some err | Inr data \<Rightarrow> writeFile data, s)"
    by (simp add: saveDB_def unlock_id split: sum.splits)
  then show ?thesis
    by (simp add: length_programs programs_nth)
qed

theorem saveDB_frame_witness:
  "\<not> mu (supA Running []) \<and>
   saveDB marshalNames (\<lambda>data. Some (IOError data)) (supA Running []) =
     Return (Some (IOError ''a;''), supA Running []) \<and>
   saveDB marshalNames (\<lambda>data. None) (supA Running []) = Return (None, supA Running []) \<and>
   saveDB (\<lambda>pgs. Inl (YamlError ''cannot marshal'')) (\<lambda>data. None) (supA Running []) =
     Return (Some (YamlError ''cannot marshal''), supA Running []) \<and>
   (0::nat) < length (names (supA Running [])) \<and>
   map_of (pgMap (supA Running [])) (names (supA Running []) ! 0) = Some pgA \<and>
   programs (supA Running []) ! 0 = pgA"
  using saveDB_frame [of "supA Running []" marshalNames "\<lambda>data. Some (IOError data)"]
        saveDB_frame [of "supA Running []" marshalNames "\<lambda>data. None"]
        saveDB_frame [of "supA Running []" "\<lambda>pgs. Inl (YamlError ''cannot marshal'')" "\<lambda>data. None"]
  by (simp add: supA_def programs_def marshalNames_def pgA_def)

end
